theory Spec2Isabelle
  imports Complex_Main
begin

section \<open>The sample collection of \<^verbatim>\<open>mcmc.py\<close>\<close>

text \<open>
  The class \<^verbatim>\<open>MCMCSampleCollection\<close> stores sample tuples
  \<^verbatim>\<open>(sample index, variable index, variable value)\<close> in a list, with two
  dictionaries between variable names and indices and two counters. Python integers are
  \<open>int\<close>; the values a sampler stores are numbers, modelled as \<open>real\<close>.
  The source is Python 2: \<^verbatim>\<open>/\<close> between integers is floor division
  (its own comment: "integer division rounds down"), which is \<open>div\<close> on \<open>int\<close>.
\<close>

subsection \<open>Exceptions\<close>

text \<open>
  Every way the source stops without returning is a value: a failed \<^verbatim>\<open>assert\<close>
  is \<open>AssertionError\<close>, \<^verbatim>\<open>sys.exit(msg)\<close> raises \<open>SystemExit\<close>, a
  missing dictionary key is \<open>KeyError\<close>, \<^verbatim>\<open>list.index\<close> of an absent
  element and a negative dimension of \<^verbatim>\<open>np.zeros\<close> are \<open>ValueError\<close>, an
  index out of range is \<open>IndexError\<close>.
\<close>

datatype error = AssertionError | SystemExit | KeyError | ValueError | IndexError

type_synonym sample_tuple = "int \<times> int \<times> real"

type_synonym matrix = "real list list"

record MCMCSampleCollection =
  num_vars :: int
  var_index_given_name :: "string \<rightharpoonup> int"
  var_name_given_index :: "int \<rightharpoonup> string"
  num_samples :: int
  sample_tuples :: "sample_tuple list"

subsection \<open>Python and numpy indexing\<close>

text \<open>
  An index \<open>i\<close> into a sequence of length \<open>n\<close> is valid from \<open>- n\<close> to
  \<open>n - 1\<close>; a negative one counts from the end; any other raises.
\<close>

definition py_index :: "nat \<Rightarrow> int \<Rightarrow> nat option" where
  "py_index n i =
     (if 0 \<le> i \<and> i < int n then Some (nat i)
      else if - int n \<le> i \<and> i < 0 then Some (nat (int n + i))
      else None)"

definition py_getitem :: "'a list \<Rightarrow> int \<Rightarrow> error + 'a" where
  "py_getitem xs i =
     (case py_index (length xs) i of None \<Rightarrow> Inl IndexError | Some k \<Rightarrow> Inr (xs ! k))"

definition py_setitem :: "'a list \<Rightarrow> int \<Rightarrow> 'a \<Rightarrow> error + 'a list" where
  "py_setitem xs i v =
     (case py_index (length xs) i of None \<Rightarrow> Inl IndexError | Some k \<Rightarrow> Inr (xs[k := v]))"

text \<open>\<^verbatim>\<open>np.zeros((n))\<close> and \<^verbatim>\<open>np.zeros((r, c))\<close>.\<close>

definition np_zeros :: "int \<Rightarrow> error + real list" where
  "np_zeros n = (if n < 0 then Inl ValueError else Inr (replicate (nat n) 0))"

definition np_zeros2 :: "int \<Rightarrow> int \<Rightarrow> error + matrix" where
  "np_zeros2 r c =
     (if r < 0 \<or> c < 0 then Inl ValueError
      else Inr (replicate (nat r) (replicate (nat c) 0)))"

text \<open>\<^verbatim>\<open>xs.index(x)\<close>: the first position of \<open>x\<close>, or \<open>ValueError\<close>.\<close>

fun list_index :: "int list \<Rightarrow> int \<Rightarrow> error + int" where
  "list_index [] x = Inl ValueError"
| "list_index (y # ys) x =
     (if y = x then Inr 0
      else case list_index ys x of Inl e \<Rightarrow> Inl e | Inr k \<Rightarrow> Inr (k + 1))"

subsection \<open>Construction, registration and appending\<close>

text \<open>\<^verbatim>\<open>__init__\<close>\<close>

definition init_collection :: MCMCSampleCollection where
  "init_collection =
     \<lparr> num_vars = 0, var_index_given_name = Map.empty, var_name_given_index = Map.empty,
       num_samples = 1, sample_tuples = [] \<rparr>"

text \<open>
  \<^verbatim>\<open>add_sample_by_index\<close> has no failing path; it returns the updated collection.
\<close>

definition add_sample_by_index ::
  "MCMCSampleCollection \<Rightarrow> int \<Rightarrow> real \<Rightarrow> bool \<Rightarrow> MCMCSampleCollection" where
  "add_sample_by_index c var_ind v same_sample_as_prev =
     (let c1 = (if \<not> same_sample_as_prev then c\<lparr>num_samples := num_samples c + 1\<rparr> else c);
          sample_ind = num_samples c1 - 1
      in c1\<lparr>sample_tuples := sample_tuples c1 @ [(sample_ind, var_ind, v)]\<rparr>)"

text \<open>
  The operations that can raise return the outcome together with the collection as the
  call leaves it, so that what a failed call did to the object is part of the model.
\<close>

definition init_var ::
  "MCMCSampleCollection \<Rightarrow> string \<Rightarrow> real \<Rightarrow> (error + unit) \<times> MCMCSampleCollection" where
  "init_var c var_name v =
     (if num_samples c > 1 then (Inl SystemExit, c)
      else
        let var_ind = num_vars c;
            c1 = c\<lparr>var_index_given_name := (var_index_given_name c)(var_name \<mapsto> var_ind)\<rparr>;
            c2 = c1\<lparr>var_name_given_index := (var_name_given_index c1)(var_ind \<mapsto> var_name)\<rparr>;
            c3 = add_sample_by_index c2 var_ind v True
        in (Inr (), c3\<lparr>num_vars := num_vars c3 + 1\<rparr>))"

text \<open>
  \<^verbatim>\<open>add_sample_by_name\<close>: the argument \<^verbatim>\<open>self.var_index_given_name[var_name]\<close>
  is evaluated before \<^verbatim>\<open>add_sample_by_index\<close> is entered.
\<close>

definition add_sample_by_name ::
  "MCMCSampleCollection \<Rightarrow> string \<Rightarrow> real \<Rightarrow> bool \<Rightarrow> (error + unit) \<times> MCMCSampleCollection" where
  "add_sample_by_name c var_name v same_sample_as_prev =
     (case var_index_given_name c var_name of
        None \<Rightarrow> (Inl KeyError, c)
      | Some var_ind \<Rightarrow> (Inr (), add_sample_by_index c var_ind v same_sample_as_prev))"

subsection \<open>The locator\<close>

text \<open>
  The linear branch iterates \<^verbatim>\<open>enumerate(self.sample_tuples)\<close>: its loop variable
  \<^verbatim>\<open>sample_ind\<close> is bound to the whole tuple, and is compared with the integer
  \<^verbatim>\<open>desired_sample_ind\<close>. The two operands are Python objects of different kinds;
  \<open>pyobj\<close> keeps the kinds apart, and \<^verbatim>\<open>==\<close> is equality of \<open>pyobj\<close>.
\<close>

datatype pyobj = PyInt int | PyTuple sample_tuple

fun linear_scan :: "sample_tuple list \<Rightarrow> int \<Rightarrow> int \<Rightarrow> int option" where
  "linear_scan [] desired_sample_ind i = None"
| "linear_scan (sample_ind # rest) desired_sample_ind i =
     (if PyTuple sample_ind = PyInt desired_sample_ind then Some i
      else linear_scan rest desired_sample_ind (i + 1))"

text \<open>
  One pass through the body of \<^verbatim>\<open>while True\<close>: it returns \<open>test_ind\<close>, raises,
  or goes round again with new bounds (after the assertion at the end of the body).
  The second comparison is evaluated only when the first is false.
\<close>

datatype step = Return int | Raise error | Continue int int

definition check_bounds :: "int \<Rightarrow> int \<Rightarrow> step" where
  "check_bounds lower_bound upper_bound =
     (if lower_bound + 1 < upper_bound then Continue lower_bound upper_bound
      else Raise AssertionError)"

definition binary_search_body :: "sample_tuple list \<Rightarrow> int \<Rightarrow> int \<Rightarrow> int \<Rightarrow> step" where
  "binary_search_body tuples desired_sample_ind lower_bound upper_bound =
     (let test_ind = (upper_bound + lower_bound) div 2 in
      case py_getitem tuples (test_ind - 1) of
        Inl e \<Rightarrow> Raise e
      | Inr before \<Rightarrow>
          if fst before \<ge> desired_sample_ind then check_bounds lower_bound test_ind
          else
            (case py_getitem tuples test_ind of
               Inl e \<Rightarrow> Raise e
             | Inr here \<Rightarrow>
                 if fst here < desired_sample_ind then check_bounds test_ind upper_bound
                 else Return test_ind))"

text \<open>
  The loop itself. \<open>None\<close> is the loop that never leaves; that it does not occur is a
  theorem below, not part of the definition.
\<close>

partial_function (option) binary_search ::
  "sample_tuple list \<Rightarrow> int \<Rightarrow> int \<Rightarrow> int \<Rightarrow> (error + int) option" where
  "binary_search tuples desired_sample_ind lower_bound upper_bound =
     (case binary_search_body tuples desired_sample_ind lower_bound upper_bound of
        Return i \<Rightarrow> Some (Inr i)
      | Raise e \<Rightarrow> Some (Inl e)
      | Continue l u \<Rightarrow> binary_search tuples desired_sample_ind l u)"

declare binary_search.simps [code]

definition first_tuple_index_of_desired_sample_index ::
  "MCMCSampleCollection \<Rightarrow> int \<Rightarrow> (error + int) option" where
  "first_tuple_index_of_desired_sample_index c desired_sample_ind =
     (if \<not> desired_sample_ind \<le> num_samples c - 1 then Some (Inl AssertionError)
      else if desired_sample_ind \<le> 10 then
        (case linear_scan (sample_tuples c) desired_sample_ind 0 of
           Some i \<Rightarrow> Some (Inr i)
         | None \<Rightarrow> Some (Inl SystemExit))
      else binary_search (sample_tuples c) desired_sample_ind 0 (int (length (sample_tuples c))))"

subsection \<open>The materializer\<close>

text \<open>
  The \<^verbatim>\<open>for\<close> loop of \<^verbatim>\<open>full_posterior_samples\<close> over the remaining tuples,
  with the loop's variables as arguments: the running sample index, the running vector
  and the matrix. \<^verbatim>\<open>break\<close> returns the matrix as it stands. Assigning the running
  vector to a row of the numpy matrix copies its values.
\<close>

fun full_scan ::
  "sample_tuple list \<Rightarrow> int \<Rightarrow> int \<Rightarrow> int \<Rightarrow> real list \<Rightarrow> matrix \<Rightarrow> error + matrix" where
  "full_scan [] starting_sample_ind ending_sample_ind current_sample_ind current_sample
     posterior_samples = Inr posterior_samples"
| "full_scan ((sample_ind, var_ind, v) # rest) starting_sample_ind ending_sample_ind
     current_sample_ind current_sample posterior_samples =
     (if current_sample_ind \<noteq> sample_ind then
        (if \<not> current_sample_ind > sample_ind then Inl AssertionError
         else
           case (if current_sample_ind \<ge> starting_sample_ind
                 then py_setitem posterior_samples (current_sample_ind - starting_sample_ind)
                        current_sample
                 else Inr posterior_samples) of
             Inl e \<Rightarrow> Inl e
           | Inr posterior_samples' \<Rightarrow>
               if sample_ind \<ge> ending_sample_ind then Inr posterior_samples'
               else
                 (case py_setitem current_sample var_ind v of
                    Inl e \<Rightarrow> Inl e
                  | Inr current_sample' \<Rightarrow>
                      full_scan rest starting_sample_ind ending_sample_ind sample_ind
                        current_sample' posterior_samples'))
      else
        (case py_setitem current_sample var_ind v of
           Inl e \<Rightarrow> Inl e
         | Inr current_sample' \<Rightarrow>
             full_scan rest starting_sample_ind ending_sample_ind current_sample_ind
               current_sample' posterior_samples))"

definition full_posterior_samples ::
  "MCMCSampleCollection \<Rightarrow> int \<Rightarrow> int option \<Rightarrow> error + matrix" where
  "full_posterior_samples c starting_sample_ind ending =
     (let ending_sample_ind = (case ending of None \<Rightarrow> num_samples c | Some e \<Rightarrow> e) in
      case np_zeros2 (ending_sample_ind - starting_sample_ind) (num_vars c) of
        Inl e \<Rightarrow> Inl e
      | Inr posterior_samples \<Rightarrow>
          (case np_zeros (num_vars c) of
             Inl e \<Rightarrow> Inl e
           | Inr current_sample \<Rightarrow>
               full_scan (sample_tuples c) starting_sample_ind ending_sample_ind 0
                 current_sample posterior_samples))"

text \<open>
  \<^verbatim>\<open>marginal_posterior_samples_by_index\<close> is the same loop; the slot written is
  \<^verbatim>\<open>marg_var_inds.index(var_ind)\<close>, evaluated before the assignment.
\<close>

definition set_marginal_slot :: "int list \<Rightarrow> real list \<Rightarrow> int \<Rightarrow> real \<Rightarrow> error + real list" where
  "set_marginal_slot marg_var_inds current_sample var_ind v =
     (case list_index marg_var_inds var_ind of
        Inl e \<Rightarrow> Inl e
      | Inr k \<Rightarrow> py_setitem current_sample k v)"

fun marginal_scan ::
  "int list \<Rightarrow> sample_tuple list \<Rightarrow> int \<Rightarrow> int \<Rightarrow> int \<Rightarrow> real list \<Rightarrow> matrix \<Rightarrow> error + matrix" where
  "marginal_scan marg_var_inds [] starting_sample_ind ending_sample_ind current_sample_ind
     current_sample posterior_samples = Inr posterior_samples"
| "marginal_scan marg_var_inds ((sample_ind, var_ind, v) # rest) starting_sample_ind
     ending_sample_ind current_sample_ind current_sample posterior_samples =
     (if current_sample_ind \<noteq> sample_ind then
        (if \<not> current_sample_ind > sample_ind then Inl AssertionError
         else
           case (if current_sample_ind \<ge> starting_sample_ind
                 then py_setitem posterior_samples (current_sample_ind - starting_sample_ind)
                        current_sample
                 else Inr posterior_samples) of
             Inl e \<Rightarrow> Inl e
           | Inr posterior_samples' \<Rightarrow>
               if sample_ind \<ge> ending_sample_ind then Inr posterior_samples'
               else
                 (case set_marginal_slot marg_var_inds current_sample var_ind v of
                    Inl e \<Rightarrow> Inl e
                  | Inr current_sample' \<Rightarrow>
                      marginal_scan marg_var_inds rest starting_sample_ind ending_sample_ind
                        sample_ind current_sample' posterior_samples'))
      else
        (case set_marginal_slot marg_var_inds current_sample var_ind v of
           Inl e \<Rightarrow> Inl e
         | Inr current_sample' \<Rightarrow>
             marginal_scan marg_var_inds rest starting_sample_ind ending_sample_ind
               current_sample_ind current_sample' posterior_samples))"

definition marginal_posterior_samples_by_index ::
  "MCMCSampleCollection \<Rightarrow> int list \<Rightarrow> int \<Rightarrow> int option \<Rightarrow> error + matrix" where
  "marginal_posterior_samples_by_index c marg_var_inds starting_sample_ind ending =
     (let ending_sample_ind = (case ending of None \<Rightarrow> num_samples c | Some e \<Rightarrow> e) in
      case np_zeros2 (ending_sample_ind - starting_sample_ind) (int (length marg_var_inds)) of
        Inl e \<Rightarrow> Inl e
      | Inr posterior_samples \<Rightarrow>
          (case np_zeros (int (length marg_var_inds)) of
             Inl e \<Rightarrow> Inl e
           | Inr current_sample \<Rightarrow>
               marginal_scan marg_var_inds (sample_tuples c) starting_sample_ind
                 ending_sample_ind 0 current_sample posterior_samples))"

text \<open>
  \<^verbatim>\<open>marginal_posterior_samples_by_name\<close>: the list comprehension raises at the first
  name that is not a key. The call that follows passes \<^verbatim>\<open>starting_sample_ind=0\<close> and
  \<^verbatim>\<open>ending_sample_ind=self.num_samples\<close> whatever the caller gave, and its value is
  dropped: the function has no \<^verbatim>\<open>return\<close>, so a call that does not raise yields
  Python's \<^verbatim>\<open>None\<close>, the \<open>None\<close> of the result type here.
\<close>

fun resolve_names :: "(string \<rightharpoonup> int) \<Rightarrow> string list \<Rightarrow> error + int list" where
  "resolve_names m [] = Inr []"
| "resolve_names m (name # names) =
     (case m name of
        None \<Rightarrow> Inl KeyError
      | Some i \<Rightarrow> (case resolve_names m names of Inl e \<Rightarrow> Inl e | Inr is \<Rightarrow> Inr (i # is)))"

definition marginal_posterior_samples_by_name ::
  "MCMCSampleCollection \<Rightarrow> string list \<Rightarrow> int \<Rightarrow> int option \<Rightarrow> error + matrix option" where
  "marginal_posterior_samples_by_name c marg_var_names starting_sample_ind ending =
     (case resolve_names (var_index_given_name c) marg_var_names of
        Inl e \<Rightarrow> Inl e
      | Inr marg_var_inds \<Rightarrow>
          (case marginal_posterior_samples_by_index c marg_var_inds 0 (Some (num_samples c)) of
             Inl e \<Rightarrow> Inl e
           | Inr m \<Rightarrow> Inr None))"

subsection \<open>Collections a caller can build\<close>

text \<open>
  The collections that the constructor and the three mutating methods produce, failed
  calls included (they leave the collection as the model says).
\<close>

inductive reachable :: "MCMCSampleCollection \<Rightarrow> bool" where
  reachable_init: "reachable init_collection"
| reachable_init_var: "reachable c \<Longrightarrow> reachable (snd (init_var c var_name v))"
| reachable_add_by_index: "reachable c \<Longrightarrow> reachable (add_sample_by_index c var_ind v same)"
| reachable_add_by_name: "reachable c \<Longrightarrow> reachable (snd (add_sample_by_name c var_name v same))"

text \<open>
  A sequence of sample indices moves in steps of zero or one: the reading of "non-decreasing
  with no skipped values" used below, applied to the log's indices behind the implicit
  index \<open>0\<close> that the counter's initial value \<open>1\<close> stands for.
\<close>

fun steps_ok :: "int list \<Rightarrow> bool" where
  "steps_ok (a # b # xs) = ((b = a \<or> b = a + 1) \<and> steps_ok (b # xs))"
| "steps_ok xs = True"

definition sample_inds :: "MCMCSampleCollection \<Rightarrow> int list" where
  "sample_inds c = map fst (sample_tuples c)"

text \<open>
  The reference linear scan of the locator's contract: the position of the first record
  whose sample index is the desired one.
\<close>

fun reference_scan :: "sample_tuple list \<Rightarrow> int \<Rightarrow> int option" where
  "reference_scan [] d = None"
| "reference_scan (t # ts) d =
     (if fst t = d then Some 0 else map_option (\<lambda>k. k + 1) (reference_scan ts d))"

text \<open>The scenario of the specification, built with the source's methods.\<close>

definition registered_xy :: MCMCSampleCollection where
  "registered_xy = snd (init_var (snd (init_var init_collection ''x'' 1)) ''y'' 2)"

definition scenario :: MCMCSampleCollection where
  "scenario =
     add_sample_by_index
       (snd (add_sample_by_name (snd (add_sample_by_name registered_xy ''x'' 3 False)) ''y'' 2 True))
       0 3 False"

text \<open>
  What every collection a caller can build satisfies: the log's sample indices, behind the
  implicit \<open>0\<close>, move in steps of zero or one and end at \<open>num_samples - 1\<close>; the
  indices in use are exactly those below \<open>num_vars\<close>.
\<close>

definition well_formed :: "MCMCSampleCollection \<Rightarrow> bool" where
  "well_formed c = (steps_ok (0 # sample_inds c) \<and> last (0 # sample_inds c) = num_samples c - 1
     \<and> 0 \<le> num_vars c \<and> dom (var_name_given_index c) = {0..<num_vars c}
     \<and> ran (var_index_given_name c) \<subseteq> {0..<num_vars c})"

text \<open>
  A longer run for the binary branch of the locator: \<open>n\<close> steps of a sampler that
  opens a new sample at each step, after the registration of the scenario.
\<close>

fun sample_steps :: "nat \<Rightarrow> MCMCSampleCollection \<Rightarrow> MCMCSampleCollection" where
  "sample_steps 0 c = c"
| "sample_steps (Suc n) c = add_sample_by_index (sample_steps n c) 0 (real n) False"

definition long_run :: MCMCSampleCollection where
  "long_run = sample_steps 12 registered_xy"

section \<open>Properties\<close>

text \<open>The definitions that evaluating a concrete collection unfolds.\<close>

lemmas scenario_defs = scenario_def registered_xy_def init_var_def add_sample_by_name_def
  add_sample_by_index_def init_collection_def Let_def

lemmas materializer_defs = full_posterior_samples_def marginal_posterior_samples_by_index_def
  marginal_posterior_samples_by_name_def set_marginal_slot_def
  np_zeros_def np_zeros2_def py_setitem_def py_index_def eval_nat_numeral

subsection \<open>Sequences of sample indices\<close>

lemma steps_ok_snoc:
  "xs \<noteq> [] \<Longrightarrow> steps_ok (xs @ [b]) = (steps_ok xs \<and> (b = last xs \<or> b = last xs + 1))"
  by (induction xs rule: steps_ok.induct) auto

lemma steps_ok_lower: "steps_ok (a # xs) \<Longrightarrow> y \<in> set xs \<Longrightarrow> a \<le> y"
proof (induction xs arbitrary: a)
  case Nil
  then show ?case by simp
next
  case (Cons b xs)
  then have "a \<le> b" and "steps_ok (b # xs)" by auto
  with Cons show ?case by fastforce
qed

lemma steps_ok_tail: "steps_ok (a # xs) \<Longrightarrow> steps_ok xs"
  by (cases xs) auto

lemma steps_ok_sorted: "steps_ok xs \<Longrightarrow> sorted xs"
proof (induction xs)
  case Nil
  then show ?case by simp
next
  case (Cons a xs)
  then show ?case using steps_ok_lower [of a xs] steps_ok_tail [of a xs] by auto
qed

lemma steps_ok_between:
  "steps_ok (a # xs) \<Longrightarrow> a \<le> d \<Longrightarrow> d \<le> last (a # xs) \<Longrightarrow> d \<in> set (a # xs)"
proof (induction xs arbitrary: a)
  case Nil
  then show ?case by simp
next
  case (Cons b xs)
  show ?case
  proof (cases "d = a")
    case True
    then show ?thesis by simp
  next
    case False
    with Cons.prems have "b \<le> d" "steps_ok (b # xs)" "d \<le> last (b # xs)" by auto
    then have "d \<in> set (b # xs)" using Cons.IH by blast
    then show ?thesis by simp
  qed
qed

lemma add_sample_by_index_simps:
  "num_samples (add_sample_by_index c i v same) = (if same then num_samples c else num_samples c + 1)"
  "sample_tuples (add_sample_by_index c i v same) =
     sample_tuples c @ [((if same then num_samples c else num_samples c + 1) - 1, i, v)]"
  "num_vars (add_sample_by_index c i v same) = num_vars c"
  "var_index_given_name (add_sample_by_index c i v same) = var_index_given_name c"
  "var_name_given_index (add_sample_by_index c i v same) = var_name_given_index c"
  by (simp_all add: add_sample_by_index_def Let_def)

subsection \<open>The invariant of the collections a caller can build\<close>

lemma wf_add: "well_formed c \<Longrightarrow> well_formed (add_sample_by_index c i v same)"
  unfolding well_formed_def sample_inds_def
  using steps_ok_snoc [of "0 # map fst (sample_tuples c)"]
  by (simp add: add_sample_by_index_simps)

lemma wf_init_var: "well_formed c \<Longrightarrow> well_formed (snd (init_var c n v))"
proof (cases "num_samples c > 1")
  case True
  then show "well_formed c \<Longrightarrow> ?thesis" by (simp add: init_var_def)
next
  case False
  assume a: "well_formed c"
  let ?c' = "snd (init_var c n v)"
  have t: "sample_inds ?c' = sample_inds c @ [num_samples c - 1]"
    and s: "num_samples ?c' = num_samples c"
    and nv: "num_vars ?c' = num_vars c + 1"
    and ni: "var_name_given_index ?c' = (var_name_given_index c)(num_vars c \<mapsto> n)"
    and inn: "var_index_given_name ?c' = (var_index_given_name c)(n \<mapsto> num_vars c)"
    using False by (simp_all add: init_var_def Let_def add_sample_by_index_simps sample_inds_def)
  have 1: "steps_ok (0 # sample_inds ?c') \<and> last (0 # sample_inds ?c') = num_samples ?c' - 1"
    using a steps_ok_snoc [of "0 # sample_inds c" "num_samples c - 1"]
    unfolding well_formed_def t s by simp
  have 2: "dom (var_name_given_index ?c') = {0..<num_vars ?c'}"
    using a unfolding well_formed_def ni nv by auto
  have 3: "ran (var_index_given_name ?c') \<subseteq> {0..<num_vars ?c'}"
    using a unfolding well_formed_def inn nv by (auto simp: ran_def split: if_splits)
  show ?thesis using a 1 2 3 nv unfolding well_formed_def by simp
qed

lemma reachable_wf: "reachable c \<Longrightarrow> well_formed c"
proof (induction rule: reachable.induct)
  case reachable_init
  then show ?case by (simp add: well_formed_def init_collection_def sample_inds_def)
next
  case (reachable_init_var c var_name v)
  then show ?case by (simp add: wf_init_var)
next
  case (reachable_add_by_index c var_ind v same)
  then show ?case by (simp add: wf_add)
next
  case (reachable_add_by_name c var_name v same)
  then show ?case by (auto simp: add_sample_by_name_def wf_add split: option.splits)
qed

subsection \<open>Registration\<close>

text \<open>
  C5. \<^verbatim>\<open>init_var\<close> fails (with \<^verbatim>\<open>sys.exit\<close>, the specification's
  RegistrationClosedError) exactly when \<open>num_samples > 1\<close>, and then leaves the
  collection as it was. Otherwise it succeeds: the variable gets the index \<open>num_vars\<close>,
  both dictionaries record the pair, the initial value is appended to the log under the
  current sample index, and \<open>num_vars\<close> grows by one. In a collection a caller can
  build, the index \<open>num_vars\<close> is free: no name has it yet, in either dictionary.
\<close>

theorem init_var_closure:
  "(fst (init_var c var_name v) = Inl SystemExit) = (num_samples c > 1)
   \<and> (if num_samples c > 1 then init_var c var_name v = (Inl SystemExit, c)
      else init_var c var_name v =
        (Inr (),
         c\<lparr>num_vars := num_vars c + 1,
           var_index_given_name := (var_index_given_name c)(var_name \<mapsto> num_vars c),
           var_name_given_index := (var_name_given_index c)(num_vars c \<mapsto> var_name),
           sample_tuples := sample_tuples c @ [(num_samples c - 1, num_vars c, v)]\<rparr>))
   \<and> (reachable c \<longrightarrow>
        num_vars c \<notin> dom (var_name_given_index c) \<and> num_vars c \<notin> ran (var_index_given_name c))"
proof -
  have "reachable c \<Longrightarrow> num_vars c \<notin> dom (var_name_given_index c)
      \<and> num_vars c \<notin> ran (var_index_given_name c)"
    using reachable_wf [of c] unfolding well_formed_def by auto
  then show ?thesis
    by (simp add: init_var_def Let_def add_sample_by_index_def)
qed

theorem init_var_closure_witness:
  "(fst (init_var registered_xy ''z'' 5) = Inr ())
   \<and> num_vars (snd (init_var registered_xy ''z'' 5)) = 3
   \<and> var_index_given_name (snd (init_var registered_xy ''z'' 5)) ''z'' = Some 2
   \<and> var_name_given_index (snd (init_var registered_xy ''z'' 5)) 2 = Some ''z''
   \<and> var_name_given_index registered_xy 2 = None
   \<and> init_var scenario ''z'' 5 = (Inl SystemExit, scenario)"
proof -
  have r: "reachable registered_xy"
    unfolding registered_xy_def by (intro reachable.intros)
  have n: "num_samples registered_xy = 1" "num_vars registered_xy = 2"
    by (simp_all add: registered_xy_def init_var_def init_collection_def Let_def
        add_sample_by_index_def)
  have s: "num_samples scenario = 3"
    by (simp add: scenario_def registered_xy_def init_var_def init_collection_def Let_def
        add_sample_by_index_def add_sample_by_name_def)
  show ?thesis
    using init_var_closure [of registered_xy "''z''" 5] init_var_closure [of scenario "''z''" 5] r n s
    by (auto simp: domIff)
qed

subsection \<open>Appending\<close>

text \<open>
  C6. \<^verbatim>\<open>add_sample_by_index\<close> with \<open>same_sample_as_prev\<close> false increments
  \<open>num_samples\<close> and appends a record whose sample index is the new counter minus one;
  with \<open>same_sample_as_prev\<close> true it appends a record with the current sample index
  \<open>num_samples - 1\<close> and leaves the counter. Consequently, in every collection a caller
  can build the log's sample indices are non-decreasing, move in steps of at most one
  from the implicit index \<open>0\<close>, and end at \<open>num_samples - 1\<close>.
\<close>

theorem append_semantics:
  "add_sample_by_index c var_ind v False =
     c\<lparr>num_samples := num_samples c + 1,
       sample_tuples := sample_tuples c @ [((num_samples c + 1) - 1, var_ind, v)]\<rparr>
   \<and> add_sample_by_index c var_ind v True =
     c\<lparr>sample_tuples := sample_tuples c @ [(num_samples c - 1, var_ind, v)]\<rparr>
   \<and> (reachable c \<longrightarrow>
        sorted (sample_inds c) \<and> steps_ok (0 # sample_inds c)
        \<and> last (0 # sample_inds c) = num_samples c - 1)"
proof -
  have "reachable c \<Longrightarrow> sorted (sample_inds c) \<and> steps_ok (0 # sample_inds c)
        \<and> last (0 # sample_inds c) = num_samples c - 1"
    using reachable_wf [of c] steps_ok_sorted [of "0 # sample_inds c"]
    unfolding well_formed_def by simp
  then show ?thesis
    by (simp add: add_sample_by_index_def Let_def)
qed

theorem append_semantics_witness:
  "sample_inds scenario = [0, 0, 1, 1, 2] \<and> num_samples scenario = 3
   \<and> sorted (sample_inds scenario) \<and> steps_ok (0 # sample_inds scenario)
   \<and> last (0 # sample_inds scenario) = num_samples scenario - 1"
proof -
  have r: "reachable scenario"
    unfolding scenario_def registered_xy_def by (intro reachable.intros)
  have e: "sample_inds scenario = [0, 0, 1, 1, 2]" "num_samples scenario = 3"
    by (simp_all add: sample_inds_def scenario_def registered_xy_def init_var_def
        init_collection_def Let_def add_sample_by_index_def add_sample_by_name_def)
  show ?thesis
    using append_semantics [of scenario 0 0] r e by simp
qed

subsection \<open>The locator: the range check\<close>

text \<open>
  C8. When \<open>desired_sample_ind\<close> is not less than \<open>num_samples\<close>, the locator fails
  with the assertion's error (the specification's IndexOutOfRangeError), whatever the
  log holds: no search takes place.
\<close>

theorem locate_out_of_range:
  "num_samples c \<le> desired_sample_ind \<Longrightarrow>
     first_tuple_index_of_desired_sample_index c desired_sample_ind = Some (Inl AssertionError)
     \<and> (\<forall>log. first_tuple_index_of_desired_sample_index (c\<lparr>sample_tuples := log\<rparr>)
           desired_sample_ind = Some (Inl AssertionError))"
  by (simp add: first_tuple_index_of_desired_sample_index_def)

theorem locate_out_of_range_witness:
  "num_samples scenario = 3
   \<and> first_tuple_index_of_desired_sample_index scenario 5 = Some (Inl AssertionError)"
proof -
  have e: "num_samples scenario = 3"
    by (simp add: scenario_def registered_xy_def init_var_def
        init_collection_def Let_def add_sample_by_index_def add_sample_by_name_def)
  then have "num_samples scenario \<le> 5" by simp
  from locate_out_of_range [OF this] e show ?thesis by simp
qed

subsection \<open>The locator: the binary search\<close>

lemma check_bounds_Continue:
  "check_bounds l u = Continue l' u' \<longleftrightarrow> l' = l \<and> u' = u \<and> l + 1 < u"
  by (auto simp: check_bounds_def)

lemma binary_search_body_Continue:
  assumes "binary_search_body tuples d lower upper = Continue l' u'"
  shows "l' + 1 < u' \<and> u' - l' < upper - lower
    \<and> ((l' = lower \<and> u' = (upper + lower) div 2) \<or> (l' = (upper + lower) div 2 \<and> u' = upper))"
proof -
  let ?t = "(upper + lower) div 2"
  from assms consider "l' = lower" "u' = ?t" "lower + 1 < ?t" | "l' = ?t" "u' = upper" "?t + 1 < upper"
    by (auto simp: binary_search_body_def Let_def check_bounds_Continue
        split: sum.splits if_splits)
  then show ?thesis
  proof cases
    case 1
    then show ?thesis by (simp_all; linarith?)
  next
    case 2
    then show ?thesis by (simp_all; linarith?)
  qed
qed

lemma binary_search_returns: "\<exists>r. binary_search tuples d lower upper = Some r"
proof (induction "nat (upper - lower)" arbitrary: lower upper rule: less_induct)
  case less
  show ?case
  proof (cases "binary_search_body tuples d lower upper")
    case (Return i)
    then show ?thesis by (subst binary_search.simps) simp
  next
    case (Raise e)
    then show ?thesis by (subst binary_search.simps) simp
  next
    case (Continue l' u')
    from binary_search_body_Continue [OF this] have "nat (u' - l') < nat (upper - lower)"
      by linarith
    then have "\<exists>r. binary_search tuples d l' u' = Some r" by (rule less)
    with Continue show ?thesis by (subst binary_search.simps) simp
  qed
qed


lemma py_getitem_nonneg:
  "0 \<le> i \<Longrightarrow> i < int (length xs) \<Longrightarrow> py_getitem xs i = Inr (xs ! nat i)"
  by (simp add: py_getitem_def py_index_def)

lemma py_getitem_in_range:
  "- int (length xs) \<le> i \<Longrightarrow> i < int (length xs) \<Longrightarrow> \<exists>x \<in> set xs. py_getitem xs i = Inr x"
  by (auto simp: py_getitem_def py_index_def)

lemma reference_scan_Some:
  "reference_scan t d = Some f \<Longrightarrow>
     0 \<le> f \<and> nat f < length t \<and> fst (t ! nat f) = d \<and> (\<forall>i < nat f. fst (t ! i) \<noteq> d)"
proof (induction t arbitrary: f)
  case Nil
  then show ?case by simp
next
  case (Cons x t)
  show ?case
  proof (cases "fst x = d")
    case True
    with Cons.prems show ?thesis by simp
  next
    case False
    with Cons.prems obtain k where k: "reference_scan t d = Some k" and f: "f = k + 1"
      by auto
    from Cons.IH [OF k] have ih: "0 \<le> k" "nat k < length t" "fst (t ! nat k) = d"
      "\<forall>i < nat k. fst (t ! i) \<noteq> d" by auto
    have n: "nat f = Suc (nat k)" using f ih(1) by simp
    have "\<forall>i < nat f. fst ((x # t) ! i) \<noteq> d"
    proof (intro allI impI)
      fix i assume "i < nat f"
      then show "fst ((x # t) ! i) \<noteq> d"
        using False ih(4) n by (cases i) auto
    qed
    then show ?thesis using ih f n by simp
  qed
qed

lemma reference_scan_None: "reference_scan t d = None \<longleftrightarrow> d \<notin> fst ` set t"
  by (induction t) auto

lemma binary_search_finds:
  assumes srt: "sorted (map fst t)"
    and p: "p < length t" "fst (t ! p) = d"
    and below: "\<forall>i < p. fst (t ! i) < d"
    and bounds: "0 \<le> lower" "lower < int p" "int p < upper" "upper \<le> int (length t)"
  shows "binary_search t d lower upper = Some (Inr (int p))"
  using bounds
proof (induction "nat (upper - lower)" arbitrary: lower upper rule: less_induct)
  case less
  have above: "d \<le> fst (t ! i)" if "p \<le> i" "i < length t" for i
    using sorted_nth_mono [OF srt, of p i] that p by simp
  define test where "test = (upper + lower) div 2"
  have t1: "lower < test" "test < upper" using less.prems unfolding test_def by linarith+
  have g1: "py_getitem t (test - 1) = Inr (t ! nat (test - 1))"
    using t1 less.prems by (intro py_getitem_nonneg) linarith+
  have g2: "py_getitem t test = Inr (t ! nat test)"
    using t1 less.prems by (intro py_getitem_nonneg) linarith+
  show ?case
  proof (cases "d \<le> fst (t ! nat (test - 1))")
    case True
    have "\<not> nat (test - 1) < p" using True below by fastforce
    then have pt: "int p < test" using t1 less.prems by linarith
    then have body: "binary_search_body t d lower upper = Continue lower test"
      using True g1 less.prems
      by (simp add: binary_search_body_def Let_def test_def [symmetric] check_bounds_def)
    have "binary_search t d lower test = Some (Inr (int p))"
      using less.prems pt t1 by (intro less.hyps) linarith+
    with body show ?thesis by (subst binary_search.simps) simp
  next
    case False
    have "nat (test - 1) < p"
    proof (rule ccontr)
      assume "\<not> nat (test - 1) < p"
      then have "d \<le> fst (t ! nat (test - 1))"
        using t1 less.prems by (intro above) linarith+
      with False show False by simp
    qed
    then have tp: "test \<le> int p" using t1 less.prems by linarith
    show ?thesis
    proof (cases "fst (t ! nat test) < d")
      case True
      have "\<not> p \<le> nat test"
      proof
        assume "p \<le> nat test"
        then have "d \<le> fst (t ! nat test)" using t1 less.prems by (intro above) linarith+
        with True show False by simp
      qed
      then have lt: "test < int p" using t1 less.prems by linarith
      then have body: "binary_search_body t d lower upper = Continue test upper"
        using True False g1 g2 less.prems
        by (simp add: binary_search_body_def Let_def test_def [symmetric] check_bounds_def)
      have "binary_search t d test upper = Some (Inr (int p))"
        using less.prems lt t1 by (intro less.hyps) linarith+
      with body show ?thesis by (subst binary_search.simps) simp
    next
      case nlt: False
      have "\<not> nat test < p" using nlt below by fastforce
      with tp t1 less.prems have eq: "test = int p" by linarith
      have body: "binary_search_body t d lower upper = Return test"
        using nlt False g1 g2
        by (simp add: binary_search_body_def Let_def test_def [symmetric])
      with eq show ?thesis by (subst binary_search.simps) simp
    qed
  qed
qed

lemma binary_search_at_front:
  assumes ge: "\<forall>x \<in> set t. d \<le> fst x" and ne: "t \<noteq> []"
    and bounds: "0 \<le> upper" "upper \<le> int (length t)"
  shows "binary_search t d 0 upper = Some (Inl AssertionError)"
  using bounds
proof (induction "nat upper" arbitrary: upper rule: less_induct)
  case less
  define test where "test = upper div 2"
  have "- int (length t) \<le> test - 1" "test - 1 < int (length t)"
    using less.prems ne unfolding test_def by (cases t; simp; linarith)+
  from py_getitem_in_range [OF this] obtain x where x: "x \<in> set t" "py_getitem t (test - 1) = Inr x"
    by blast
  then have dx: "d \<le> fst x" using ge by blast
  show ?case
  proof (cases "0 + 1 < test")
    case True
    then have body: "binary_search_body t d 0 upper = Continue 0 test"
      using x dx by (simp add: binary_search_body_def Let_def test_def [symmetric] check_bounds_def)
    have "binary_search t d 0 test = Some (Inl AssertionError)"
      using True less.prems unfolding test_def by (intro less.hyps) linarith+
    with body show ?thesis by (subst binary_search.simps) simp
  next
    case False
    then have body: "binary_search_body t d 0 upper = Raise AssertionError"
      using x dx by (simp add: binary_search_body_def Let_def test_def [symmetric] check_bounds_def)
    then show ?thesis by (subst binary_search.simps) simp
  qed
qed

lemma binary_search_sorted:
  assumes "sorted (map fst tuples)" and "reference_scan tuples d = Some f"
  shows "binary_search tuples d 0 (int (length tuples)) =
           Some (if f = 0 then Inl AssertionError else Inr f)"
proof -
  from reference_scan_Some [OF assms(2)]
  have f: "0 \<le> f" "nat f < length tuples" "fst (tuples ! nat f) = d"
    and ne: "\<forall>i < nat f. fst (tuples ! i) \<noteq> d" by auto
  have le: "fst (tuples ! i) \<le> fst (tuples ! j)" if "i \<le> j" "j < length tuples" for i j
    using sorted_nth_mono [OF assms(1), of i j] that by simp
  show ?thesis
  proof (cases "f = 0")
    case True
    have "\<forall>x \<in> set tuples. d \<le> fst x"
    proof
      fix x assume "x \<in> set tuples"
      then obtain j where "j < length tuples" "x = tuples ! j" by (auto simp: in_set_conv_nth)
      then show "d \<le> fst x" using le [of 0 j] f True by simp
    qed
    moreover have "tuples \<noteq> []" using f by auto
    ultimately have "binary_search tuples d 0 (int (length tuples)) = Some (Inl AssertionError)"
      by (intro binary_search_at_front) simp_all
    with True show ?thesis by simp
  next
    case False
    have below: "\<forall>i < nat f. fst (tuples ! i) < d"
    proof (intro allI impI)
      fix i assume i: "i < nat f"
      then have "fst (tuples ! i) \<le> d" using le [of i "nat f"] f by simp
      with ne i show "fst (tuples ! i) < d" by fastforce
    qed
    have "binary_search tuples d 0 (int (length tuples)) = Some (Inr (int (nat f)))"
      using f False by (intro binary_search_finds [OF assms(1) f(2) f(3) below]) simp_all
    with False f show ?thesis by simp
  qed
qed

lemma long_run_log:
  "sample_tuples long_run =
     [(0, 0, 1), (0, 1, 2), (1, 0, 0), (2, 0, 1), (3, 0, 2), (4, 0, 3), (5, 0, 4), (6, 0, 5),
      (7, 0, 6), (8, 0, 7), (9, 0, 8), (10, 0, 9), (11, 0, 10), (12, 0, 11)]"
  "num_samples long_run = 13"
  by (simp_all add: long_run_def eval_nat_numeral registered_xy_def init_var_def
      init_collection_def Let_def add_sample_by_index_def)

text \<open>
  The two branches of the locator, on any collection within the range check: the linear
  branch never finds a record, since no tuple equals an integer; the binary branch, on a
  collection a caller can build, agrees with the reference scan.
\<close>

lemma linear_scan_None: "linear_scan tuples d i = None"
  by (induction tuples arbitrary: i) simp_all

lemma locate_linear_branch:
  "d \<le> 10 \<Longrightarrow> d \<le> num_samples c - 1 \<Longrightarrow>
     first_tuple_index_of_desired_sample_index c d = Some (Inl SystemExit)"
  by (simp add: first_tuple_index_of_desired_sample_index_def linear_scan_None)

lemma locate_binary_branch:
  assumes "reachable c" and "10 < d" and "d < num_samples c"
  shows "\<exists>f. reference_scan (sample_tuples c) d = Some f
     \<and> first_tuple_index_of_desired_sample_index c d = Some (Inr f)"
proof -
  let ?t = "sample_tuples c"
  from reachable_wf [OF assms(1)]
  have st: "steps_ok (0 # map fst ?t)" and la: "last (0 # map fst ?t) = num_samples c - 1"
    unfolding well_formed_def sample_inds_def by simp_all
  have "d \<in> set (0 # map fst ?t)"
    using st la assms by (intro steps_ok_between) simp_all
  then have "d \<in> fst ` set ?t" using assms(2) by auto
  then obtain f where f: "reference_scan ?t d = Some f"
    using reference_scan_None [of ?t d] by (cases "reference_scan ?t d") auto
  have srt: "sorted (map fst ?t)"
    using steps_ok_sorted [OF st] by simp
  have "f \<noteq> 0"
  proof
    assume "f = 0"
    with reference_scan_Some [OF f] have "?t \<noteq> []" "fst (?t ! 0) = d" by auto
    then obtain x rest where "?t = x # rest" "fst x = d" by (cases ?t) auto
    with st assms(2) show False by simp
  qed
  with binary_search_sorted [OF srt f]
  have "binary_search ?t d 0 (int (length ?t)) = Some (Inr f)" by simp
  with f assms show ?thesis
    by (simp add: first_tuple_index_of_desired_sample_index_def)
qed

text \<open>
  What a pass of the loop does when its new bounds would violate the assertion, and what a
  position that the loop returns is.
\<close>

lemma binary_search_Raise:
  "binary_search_body tuples d lower upper = Raise e \<Longrightarrow>
     binary_search tuples d lower upper = Some (Inl e)"
  by (subst binary_search.simps) simp

lemma binary_search_body_upper_violation:
  assumes "py_getitem tuples ((upper + lower) div 2 - 1) = Inr before"
    and "d \<le> fst before" and "\<not> lower + 1 < (upper + lower) div 2"
  shows "binary_search_body tuples d lower upper = Raise AssertionError"
  using assms by (simp add: binary_search_body_def Let_def check_bounds_def)

lemma binary_search_body_lower_violation:
  assumes "py_getitem tuples ((upper + lower) div 2 - 1) = Inr before"
    and "fst before < d"
    and "py_getitem tuples ((upper + lower) div 2) = Inr here"
    and "fst here < d" and "\<not> (upper + lower) div 2 + 1 < upper"
  shows "binary_search_body tuples d lower upper = Raise AssertionError"
  using assms by (simp add: binary_search_body_def Let_def check_bounds_def)

lemma binary_search_body_Return:
  assumes "binary_search_body tuples d lower upper = Return i"
  shows "i = (upper + lower) div 2
     \<and> (\<exists>before here. py_getitem tuples (i - 1) = Inr before \<and> py_getitem tuples i = Inr here
           \<and> fst before < d \<and> d \<le> fst here)"
  using assms
  by (auto simp: binary_search_body_def Let_def check_bounds_def
      split: sum.splits if_splits)

lemma binary_search_Return:
  "binary_search tuples d lower upper = Some (Inr i) \<Longrightarrow>
     \<exists>before here. py_getitem tuples (i - 1) = Inr before \<and> py_getitem tuples i = Inr here
        \<and> fst before < d \<and> d \<le> fst here"
proof (induction "nat (upper - lower)" arbitrary: lower upper rule: less_induct)
  case less
  show ?case
  proof (cases "binary_search_body tuples d lower upper")
    case (Return j)
    with less.prems have "j = i" by (subst (asm) binary_search.simps) simp
    with binary_search_body_Return [OF Return] show ?thesis by blast
  next
    case (Raise e)
    with less.prems show ?thesis by (subst (asm) binary_search.simps) simp
  next
    case (Continue l' u')
    from binary_search_body_Continue [OF this] have m: "nat (u' - l') < nat (upper - lower)"
      by linarith
    from Continue less.prems have "binary_search tuples d l' u' = Some (Inr i)"
      by (subst (asm) binary_search.simps) simp
    with m show ?thesis by (rule less.hyps)
  qed
qed

lemma reachable_sample_steps: "reachable c \<Longrightarrow> reachable (sample_steps n c)"
  by (induction n) (auto intro: reachable.intros)

lemma scenario_log:
  "sample_tuples scenario = [(0, 0, 1), (0, 1, 2), (1, 0, 3), (1, 1, 2), (2, 0, 3)]"
  by (simp add: scenario_defs)

text \<open>
  On a log that skips the desired index (no caller can build one) the assertion is not
  involved: the search returns the position of the first record beyond the index.
\<close>

lemma binary_search_skipped_index:
  "binary_search [(0, 0, 0), (12, 0, 0), (12, 0, 0), (12, 0, 0)] 11 0 4 = Some (Inr 1)"
  by (subst binary_search.simps, simp add: binary_search_body_def py_getitem_def py_index_def
      check_bounds_def)+

text \<open>
  C9. The loop of the binary branch returns or raises, whatever the log and the bounds it
  starts from: it never runs forever. Each pass that goes round again has passed the
  assertion, so its new bounds satisfy \<open>lower + 1 < upper\<close>, one of them is the
  midpoint, and the interval is strictly shorter than before. A pass that would move the
  upper bound, or the lower bound, to the midpoint and so violate \<open>lower + 1 < upper\<close>
  raises the assertion's error, and that error is the result of the search: it neither
  goes on nor returns a position. A position the search returns is always one whose
  record is at or above the desired index while the record before it is below. On a log
  with non-decreasing sample indices that holds the desired index, the search started on
  the whole log returns the position of the first record with that index, or fails with
  the assertion's error (when that record is the first of the log). On a collection a
  caller can build, every desired index above \<open>10\<close> and below \<open>num_samples\<close> is in
  the log and the locator returns the position of its first record.
\<close>

theorem binary_search_terminates:
  "(\<exists>r. binary_search tuples d lower upper = Some r)
   \<and> (\<forall>l' u'. binary_search_body tuples d lower upper = Continue l' u' \<longrightarrow>
         l' + 1 < u' \<and> u' - l' < upper - lower
         \<and> ((l' = lower \<and> u' = (upper + lower) div 2) \<or> (l' = (upper + lower) div 2 \<and> u' = upper)))
   \<and> (\<forall>before. py_getitem tuples ((upper + lower) div 2 - 1) = Inr before \<and> d \<le> fst before
         \<and> \<not> lower + 1 < (upper + lower) div 2 \<longrightarrow>
         binary_search_body tuples d lower upper = Raise AssertionError
         \<and> binary_search tuples d lower upper = Some (Inl AssertionError))
   \<and> (\<forall>before here. py_getitem tuples ((upper + lower) div 2 - 1) = Inr before \<and> fst before < d
         \<and> py_getitem tuples ((upper + lower) div 2) = Inr here \<and> fst here < d
         \<and> \<not> (upper + lower) div 2 + 1 < upper \<longrightarrow>
         binary_search_body tuples d lower upper = Raise AssertionError
         \<and> binary_search tuples d lower upper = Some (Inl AssertionError))
   \<and> (\<forall>i. binary_search tuples d lower upper = Some (Inr i) \<longrightarrow>
         (\<exists>before here. py_getitem tuples (i - 1) = Inr before \<and> py_getitem tuples i = Inr here
            \<and> fst before < d \<and> d \<le> fst here))
   \<and> (sorted (map fst tuples) \<and> reference_scan tuples d = Some f \<longrightarrow>
         binary_search tuples d 0 (int (length tuples)) =
           Some (if f = 0 then Inl AssertionError else Inr f))
   \<and> (reachable c \<and> 10 < d \<and> d < num_samples c \<longrightarrow>
         (\<exists>p. reference_scan (sample_tuples c) d = Some p
            \<and> first_tuple_index_of_desired_sample_index c d = Some (Inr p)))"
proof -
  have 1: "\<exists>r. binary_search tuples d lower upper = Some r"
    by (rule binary_search_returns)
  have 2: "\<forall>l' u'. binary_search_body tuples d lower upper = Continue l' u' \<longrightarrow>
         l' + 1 < u' \<and> u' - l' < upper - lower
         \<and> ((l' = lower \<and> u' = (upper + lower) div 2) \<or> (l' = (upper + lower) div 2 \<and> u' = upper))"
    using binary_search_body_Continue [of tuples d lower upper] by blast
  have 3: "\<forall>before. py_getitem tuples ((upper + lower) div 2 - 1) = Inr before \<and> d \<le> fst before
         \<and> \<not> lower + 1 < (upper + lower) div 2 \<longrightarrow>
         binary_search_body tuples d lower upper = Raise AssertionError
         \<and> binary_search tuples d lower upper = Some (Inl AssertionError)"
    using binary_search_body_upper_violation [of tuples upper lower _ d]
      binary_search_Raise [of tuples d lower upper AssertionError] by blast
  have 4: "\<forall>before here. py_getitem tuples ((upper + lower) div 2 - 1) = Inr before \<and> fst before < d
         \<and> py_getitem tuples ((upper + lower) div 2) = Inr here \<and> fst here < d
         \<and> \<not> (upper + lower) div 2 + 1 < upper \<longrightarrow>
         binary_search_body tuples d lower upper = Raise AssertionError
         \<and> binary_search tuples d lower upper = Some (Inl AssertionError)"
    using binary_search_body_lower_violation [of tuples upper lower _ d]
      binary_search_Raise [of tuples d lower upper AssertionError] by blast
  have 5: "\<forall>i. binary_search tuples d lower upper = Some (Inr i) \<longrightarrow>
         (\<exists>before here. py_getitem tuples (i - 1) = Inr before \<and> py_getitem tuples i = Inr here
            \<and> fst before < d \<and> d \<le> fst here)"
    using binary_search_Return [of tuples d lower upper] by blast
  have 6: "sorted (map fst tuples) \<and> reference_scan tuples d = Some f \<longrightarrow>
         binary_search tuples d 0 (int (length tuples)) =
           Some (if f = 0 then Inl AssertionError else Inr f)"
    using binary_search_sorted [of tuples d f] by blast
  have 7: "reachable c \<and> 10 < d \<and> d < num_samples c \<longrightarrow>
         (\<exists>p. reference_scan (sample_tuples c) d = Some p
            \<and> first_tuple_index_of_desired_sample_index c d = Some (Inr p))"
    using locate_binary_branch [of c d] by blast
  from 1 2 3 4 5 6 7 show ?thesis by (intro conjI)
qed

theorem binary_search_terminates_witness:
  "binary_search_body (sample_tuples long_run) 11 0 14 = Continue 7 14
   \<and> sorted (map fst (sample_tuples long_run))
   \<and> reference_scan (sample_tuples long_run) 11 = Some 12
   \<and> binary_search (sample_tuples long_run) 11 0 14 = Some (Inr 12)
   \<and> py_getitem (sample_tuples long_run) 11 = Inr (10, 0, 9)
   \<and> py_getitem (sample_tuples long_run) 12 = Inr (11, 0, 10)
   \<and> reachable long_run \<and> num_samples long_run = 13
   \<and> first_tuple_index_of_desired_sample_index long_run 11 = Some (Inr 12)
   \<and> binary_search_body (sample_tuples scenario) 15 3 5 = Raise AssertionError
   \<and> binary_search (sample_tuples scenario) 15 3 5 = Some (Inl AssertionError)
   \<and> binary_search (sample_tuples scenario) 15 0 5 = Some (Inl AssertionError)
   \<and> binary_search_body (sample_tuples scenario) 0 0 2 = Raise AssertionError
   \<and> binary_search (sample_tuples scenario) 0 0 2 = Some (Inl AssertionError)"
proof -
  let ?L = "sample_tuples long_run" and ?S = "sample_tuples scenario"
  have b: "binary_search_body ?L 11 0 14 = Continue 7 14"
    by (simp add: long_run_log binary_search_body_def py_getitem_def py_index_def
        check_bounds_def)
  have s: "sorted (map fst ?L)"
    by (simp add: long_run_log)
  have r: "reference_scan ?L 11 = Some 12"
    by (simp add: long_run_log)
  have l: "int (length ?L) = 14"
    by (simp add: long_run_log)
  have g: "py_getitem ?L 11 = Inr (10, 0, 9)" "py_getitem ?L 12 = Inr (11, 0, 10)"
    by (simp_all add: long_run_log py_getitem_def py_index_def)
  have re: "reachable long_run"
    unfolding long_run_def registered_xy_def
    by (intro reachable_sample_steps reachable.intros)
  have n: "num_samples long_run = 13" by (rule long_run_log)
  have lo: "py_getitem ?S ((5 + 3) div 2 - 1) = Inr (1, 1, 2)"
    "py_getitem ?S ((5 + 3) div 2) = Inr (2, 0, 3)"
    by (simp_all add: scenario_log py_getitem_def py_index_def)
  have up: "py_getitem ?S ((2 + 0) div 2 - 1) = Inr (0, 0, 1)"
    by (simp add: scenario_log py_getitem_def py_index_def)
  have c1: "binary_search_body ?S 15 0 5 = Continue 2 5"
    and c2: "binary_search_body ?S 15 2 5 = Continue 3 5"
    by (simp_all add: scenario_log binary_search_body_def py_getitem_def py_index_def
        check_bounds_def)
  note t1 = binary_search_terminates [of ?L 11 0 14 12 long_run]
  note t2 = binary_search_terminates [of ?S 15 3 5 0 scenario]
  note t3 = binary_search_terminates [of ?S 0 0 2 0 scenario]
  have w1: "binary_search ?L 11 0 14 = Some (Inr 12)"
    and w2: "first_tuple_index_of_desired_sample_index long_run 11 = Some (Inr 12)"
    using t1 s r l re n by auto
  have w3: "binary_search_body ?S 15 3 5 = Raise AssertionError"
    "binary_search ?S 15 3 5 = Some (Inl AssertionError)"
    using t2 lo by auto
  have w4: "binary_search_body ?S 0 0 2 = Raise AssertionError"
    "binary_search ?S 0 0 2 = Some (Inl AssertionError)"
    using t3 up by auto
  have w5: "binary_search ?S 15 0 5 = Some (Inl AssertionError)"
    using c1 c2 w3(2)
    by (subst binary_search.simps, simp, subst binary_search.simps, simp)
  from b s r g re n w1 w2 w3 w4 w5 show ?thesis by (intro conjI)
qed

text \<open>
  C2. The locator's contract fails on the linear branch. After registering \<open>x\<close> and
  \<open>y\<close> the log is \<open>[(0, 0, 1), (0, 1, 2)]\<close> and sample index \<open>0\<close> is within
  range; the reference scan finds its first record at position \<open>0\<close>, and the locator
  leaves through \<^verbatim>\<open>sys.exit\<close>.
\<close>

theorem linear_branch_exits:
  "reference_scan (sample_tuples registered_xy) 0 = Some 0
   \<and> first_tuple_index_of_desired_sample_index registered_xy 0 = Some (Inl SystemExit)"
  by (simp add: scenario_defs first_tuple_index_of_desired_sample_index_def)

subsection \<open>The materializer\<close>

text \<open>
  Both scans start with the running sample index \<open>0\<close>. On a log whose sample indices
  are not negative the assertion \<^verbatim>\<open>current_sample_ind > sample_ind\<close> fails at the
  first record of a later sample, and before that no row is written: a scan that returns
  has left the matrix as \<^verbatim>\<open>np.zeros\<close> made it.
\<close>

lemma full_scan_no_flush:
  "\<forall>x \<in> set t. 0 \<le> fst x \<Longrightarrow> full_scan t s e 0 cur ps = Inr m \<Longrightarrow> m = ps"
proof (induction t arbitrary: cur)
  case Nil
  then show ?case by simp
next
  case (Cons x t)
  obtain si vi v where x: "x = (si, vi, v)" by (cases x)
  with Cons.prems have "0 \<le> si" by simp
  with Cons.prems x show ?case
    by (auto split: if_splits sum.splits intro: Cons.IH)
qed

lemma full_scan_raises:
  "\<forall>x \<in> set t. 0 \<le> fst x \<Longrightarrow> \<exists>x \<in> set t. 0 < fst x \<Longrightarrow>
     \<exists>er. full_scan t s e 0 cur ps = Inl er"
proof (induction t arbitrary: cur)
  case Nil
  then show ?case by simp
next
  case (Cons x t)
  obtain si vi v where x: "x = (si, vi, v)" by (cases x)
  show ?case
  proof (cases "si = 0")
    case True
    with Cons.prems x have "\<forall>x \<in> set t. 0 \<le> fst x" "\<exists>x \<in> set t. 0 < fst x" by auto
    then have "\<exists>er. full_scan t s e 0 cur' ps = Inl er" for cur' by (rule Cons.IH)
    with True x show ?thesis by (simp split: sum.splits)
  next
    case False
    with Cons.prems x have "0 < si" by auto
    with x show ?thesis by simp
  qed
qed

lemma marginal_scan_no_flush:
  "\<forall>x \<in> set t. 0 \<le> fst x \<Longrightarrow> marginal_scan mv t s e 0 cur ps = Inr m \<Longrightarrow> m = ps"
proof (induction t arbitrary: cur)
  case Nil
  then show ?case by simp
next
  case (Cons x t)
  obtain si vi v where x: "x = (si, vi, v)" by (cases x)
  with Cons.prems have "0 \<le> si" by simp
  with Cons.prems x show ?case
    by (auto split: if_splits sum.splits intro: Cons.IH)
qed

lemma marginal_scan_raises:
  "\<forall>x \<in> set t. 0 \<le> fst x \<Longrightarrow> \<exists>x \<in> set t. 0 < fst x \<Longrightarrow>
     \<exists>er. marginal_scan mv t s e 0 cur ps = Inl er"
proof (induction t arbitrary: cur)
  case Nil
  then show ?case by simp
next
  case (Cons x t)
  obtain si vi v where x: "x = (si, vi, v)" by (cases x)
  show ?case
  proof (cases "si = 0")
    case True
    with Cons.prems x have "\<forall>x \<in> set t. 0 \<le> fst x" "\<exists>x \<in> set t. 0 < fst x" by auto
    then have "\<exists>er. marginal_scan mv t s e 0 cur' ps = Inl er" for cur' by (rule Cons.IH)
    with True x show ?thesis by (simp split: sum.splits)
  next
    case False
    with Cons.prems x have "0 < si" by auto
    with x show ?thesis by simp
  qed
qed

lemma reachable_sample_inds:
  assumes "reachable c"
  shows "\<forall>x \<in> set (sample_tuples c). 0 \<le> fst x"
    and "1 < num_samples c \<Longrightarrow> \<exists>x \<in> set (sample_tuples c). 0 < fst x"
proof -
  from reachable_wf [OF assms]
  have st: "steps_ok (0 # map fst (sample_tuples c))"
    and la: "last (0 # map fst (sample_tuples c)) = num_samples c - 1"
    unfolding well_formed_def sample_inds_def by simp_all
  show "\<forall>x \<in> set (sample_tuples c). 0 \<le> fst x"
    using steps_ok_lower [OF st] by simp
  assume "1 < num_samples c"
  with la have ne: "sample_tuples c \<noteq> []" and "0 < last (map fst (sample_tuples c))"
    by (auto split: if_splits)
  then have "0 < fst (last (sample_tuples c))" by (simp add: last_map)
  with ne show "\<exists>x \<in> set (sample_tuples c). 0 < fst x"
    using last_in_set by blast
qed

lemma full_posterior_samples_reachable:
  assumes "reachable c"
  shows "1 < num_samples c \<Longrightarrow> \<exists>er. full_posterior_samples c s e = Inl er"
    and "full_posterior_samples c s e = Inr m \<Longrightarrow>
           m = replicate (nat ((case e of None \<Rightarrow> num_samples c | Some e' \<Rightarrow> e') - s))
                 (replicate (nat (num_vars c)) 0)"
proof -
  note r = reachable_sample_inds [OF assms]
  show "\<exists>er. full_posterior_samples c s e = Inl er" if "1 < num_samples c"
    using full_scan_raises [OF r(1) r(2) [OF that]]
    by (simp add: full_posterior_samples_def Let_def split: sum.splits)
  show "m = replicate (nat ((case e of None \<Rightarrow> num_samples c | Some e' \<Rightarrow> e') - s))
                 (replicate (nat (num_vars c)) 0)"
    if "full_posterior_samples c s e = Inr m"
    using that full_scan_no_flush [OF r(1)]
    by (auto simp: full_posterior_samples_def Let_def np_zeros_def np_zeros2_def
        split: sum.splits if_splits)
qed

lemma marginal_posterior_samples_by_index_reachable:
  assumes "reachable c"
  shows "1 < num_samples c \<Longrightarrow> \<exists>er. marginal_posterior_samples_by_index c mv s e = Inl er"
    and "marginal_posterior_samples_by_index c mv s e = Inr m \<Longrightarrow>
           m = replicate (nat ((case e of None \<Rightarrow> num_samples c | Some e' \<Rightarrow> e') - s))
                 (replicate (length mv) 0)"
proof -
  note r = reachable_sample_inds [OF assms]
  show "\<exists>er. marginal_posterior_samples_by_index c mv s e = Inl er" if "1 < num_samples c"
    using marginal_scan_raises [OF r(1) r(2) [OF that]]
    by (simp add: marginal_posterior_samples_by_index_def Let_def split: sum.splits)
  show "m = replicate (nat ((case e of None \<Rightarrow> num_samples c | Some e' \<Rightarrow> e') - s))
                 (replicate (length mv) 0)"
    if "marginal_posterior_samples_by_index c mv s e = Inr m"
    using that marginal_scan_no_flush [OF r(1)]
    by (auto simp: marginal_posterior_samples_by_index_def Let_def np_zeros_def np_zeros2_def
        split: sum.splits if_splits)
qed

lemma marginal_posterior_samples_by_name_no_matrix:
  "marginal_posterior_samples_by_name c names s e \<noteq> Inr (Some m)"
  by (simp add: marginal_posterior_samples_by_name_def split: sum.splits)

text \<open>
  C1. Forward fill is not what \<^verbatim>\<open>full_posterior_samples\<close> computes. In the
  specification's scenario (values \<open>x = 1\<close>, \<open>y = 2\<close> registered, then two new
  samples) the log is as stated, three samples are open, and the call for the range
  \<open>[0, 3)\<close> raises the assertion's error where the specification expects the matrix
  \<open>[[1, 2], [3, 2], [3, 2]]\<close>.
\<close>

theorem forward_fill_scenario_fails:
  "sample_tuples scenario = [(0, 0, 1), (0, 1, 2), (1, 0, 3), (1, 1, 2), (2, 0, 3)]
   \<and> num_samples scenario = 3
   \<and> full_posterior_samples scenario 0 (Some 3) = Inl AssertionError"
  by (simp add: scenario_defs materializer_defs)

text \<open>
  C4. The first row is not the registered values. With \<open>x = 1\<close> and \<open>y = 2\<close>
  registered and no further sample opened, the log holds both values under sample index
  \<open>0\<close>, and \<^verbatim>\<open>full_posterior_samples\<close> returns the single row \<open>[0, 0]\<close>: the
  running vector is never written to the matrix.
\<close>

theorem first_row_is_zero:
  "sample_tuples registered_xy = [(0, 0, 1), (0, 1, 2)]
   \<and> full_posterior_samples registered_xy 0 None = Inr [[0, 0]]"
  by (simp add: scenario_defs materializer_defs)

text \<open>
  C3. A record of a variable that is not requested is not skipped. With \<open>x\<close> and
  \<open>y\<close> registered, the marginal reconstruction for the variable index \<open>0\<close> alone
  raises \<open>ValueError\<close> at the record of \<open>y\<close>, while the full reconstruction
  returns a matrix.
\<close>

theorem marginal_unrequested_variable_raises:
  "marginal_posterior_samples_by_index registered_xy [0] 0 None = Inl ValueError
   \<and> full_posterior_samples registered_xy 0 None = Inr [[0, 0]]"
  by (simp add: scenario_defs materializer_defs)

text \<open>
  C7. The name-based marginal operation returns no matrix. With \<open>x\<close> and \<open>y\<close>
  registered, the call with both names yields Python's \<^verbatim>\<open>None\<close>, for the default
  range and for the range \<open>[0, 1)\<close> alike, while the index-based operation on the
  resolved indices returns a matrix.
\<close>

theorem marginal_by_name_returns_none:
  "marginal_posterior_samples_by_name registered_xy [''x'', ''y''] 0 None = Inr None
   \<and> marginal_posterior_samples_by_name registered_xy [''x'', ''y''] 0 (Some 1) = Inr None
   \<and> marginal_posterior_samples_by_index registered_xy [0, 1] 0 None = Inr [[0, 0]]"
  by (simp add: scenario_defs materializer_defs)

subsection \<open>Appending by an unknown name\<close>

text \<open>
  C10. \<^verbatim>\<open>add_sample_by_name\<close> with a name that is not a key of
  \<open>var_index_given_name\<close> raises \<open>KeyError\<close> and leaves the collection, with all
  its fields, as it was.
\<close>

theorem add_sample_by_name_unknown:
  "var_index_given_name c var_name = None \<Longrightarrow>
     add_sample_by_name c var_name v same = (Inl KeyError, c)
     \<and> sample_tuples (snd (add_sample_by_name c var_name v same)) = sample_tuples c
     \<and> num_samples (snd (add_sample_by_name c var_name v same)) = num_samples c
     \<and> num_vars (snd (add_sample_by_name c var_name v same)) = num_vars c
     \<and> var_index_given_name (snd (add_sample_by_name c var_name v same)) = var_index_given_name c
     \<and> var_name_given_index (snd (add_sample_by_name c var_name v same)) = var_name_given_index c"
  by (simp add: add_sample_by_name_def)

theorem add_sample_by_name_unknown_witness:
  "var_index_given_name registered_xy ''z'' = None
   \<and> add_sample_by_name registered_xy ''z'' 7 False = (Inl KeyError, registered_xy)"
proof -
  have e: "var_index_given_name registered_xy ''z'' = None"
    by (simp add: registered_xy_def init_var_def init_collection_def Let_def
        add_sample_by_index_def)
  from add_sample_by_name_unknown [OF e] e show ?thesis by simp
qed

end
